theory Spec2Isabelle
  imports Complex_Main
begin

section \<open>Store types (src/stores/types.ts)\<close>

text \<open>
  The store's entities, with the fields the selectors read. A TypeScript
  \<^verbatim>\<open>number\<close> is a \<^typ>\<open>rat\<close>: a finite value that need not be whole
  (rounding, NaN and the infinities are not modelled). The length of an array
  is an \<^typ>\<open>int\<close>. Status values are the strings the program compares.
\<close>

record Task =
  task_id :: string
  agentId :: string
  task_status :: string
  createdAt :: string

record Campaign =
  campaign_id :: string
  campaign_status :: string
  budget :: rat
  spent :: rat
  impressions :: rat
  clicks :: rat
  conversions :: rat



section \<open>Selectors (src/hooks/useOptimizedStore.ts)\<close>

subsection \<open>useFilteredTasks\<close>











subsection \<open>useCampaignMetrics\<close>

text \<open>
  A division whose divisor is zero gives no finite number in the program
  (Infinity or NaN); \<open>js_divide\<close> returns \<open>None\<close> there, so that a guard that
  is missing shows in the result.
\<close>

definition js_divide :: "rat \<Rightarrow> rat \<Rightarrow> rat option" where
  "js_divide a b = (if b = 0 then None else Some (a / b))"

record Totals =
  totalBudget :: rat
  totalSpent :: rat
  totalImpressions :: rat
  totalClicks :: rat
  totalConversions :: rat

definition add_campaign :: "Totals \<Rightarrow> Campaign \<Rightarrow> Totals" where
  "add_campaign acc c =
     \<lparr> totalBudget = totalBudget acc + budget c,
       totalSpent = totalSpent acc + spent c,
       totalImpressions = totalImpressions acc + impressions c,
       totalClicks = totalClicks acc + clicks c,
       totalConversions = totalConversions acc + conversions c \<rparr>"

definition zero_totals :: Totals where
  "zero_totals = \<lparr> totalBudget = 0, totalSpent = 0, totalImpressions = 0,
                    totalClicks = 0, totalConversions = 0 \<rparr>"

record CampaignMetrics =
  metrics :: Totals
  activeCampaigns :: int
  avgCTR :: "rat option"
  avgCVR :: "rat option"
  budgetUtilization :: "rat option"

definition percent_of :: "rat \<Rightarrow> rat \<Rightarrow> rat option" where
  "percent_of a b = (if b > 0 then map_option (\<lambda>q. q * 100) (js_divide a b) else Some 0)"

definition is_active :: "Campaign \<Rightarrow> bool" where
  "is_active c = (campaign_status c = ''active'')"

definition useCampaignMetrics :: "Campaign list \<Rightarrow> CampaignMetrics" where
  "useCampaignMetrics campaigns =
     (let active = filter is_active campaigns;
          m = foldl add_campaign zero_totals active
      in \<lparr> metrics = m,
           activeCampaigns = int (length active),
           avgCTR = percent_of (totalClicks m) (totalImpressions m),
           avgCVR = percent_of (totalConversions m) (totalClicks m),
           budgetUtilization = percent_of (totalSpent m) (totalBudget m) \<rparr>)"

text \<open>
  A store whose only active campaign has no traffic and no budget yet, beside a
  paused campaign with figures.
\<close>

definition sample_campaigns :: "Campaign list" where
  "sample_campaigns =
     [\<lparr> campaign_id = ''c1'', campaign_status = ''active'', budget = 0, spent = 0,
        impressions = 0, clicks = 0, conversions = 0 \<rparr>,
      \<lparr> campaign_id = ''c2'', campaign_status = ''paused'', budget = 100, spent = 50,
        impressions = 1000, clicks = 10, conversions = 1 \<rparr>]"

section \<open>Cancellation scopes (src/hooks/useAbortController.ts)\<close>

text \<open>
  One use of the hook holds a reference \<open>abortControllerRef\<close>. The model keeps
  every controller the holder has created, in creation order, as its
  \<open>aborted\<close> flag; a controller is named by its position. \<open>current\<close> is
  \<open>abortControllerRef.current\<close>, with \<open>None\<close> for \<^verbatim>\<open>null\<close>.
\<close>

record Holder =
  controllers :: "bool list"
  current :: "nat option"

definition new_holder :: Holder where
  "new_holder = \<lparr> controllers = [], current = None \<rparr>"

definition abort_at :: "nat option \<Rightarrow> bool list \<Rightarrow> bool list" where
  "abort_at r cs = (case r of None \<Rightarrow> cs | Some i \<Rightarrow> cs[i := True])"

definition createController :: "Holder \<Rightarrow> Holder" where
  "createController h =
     (let cs = abort_at (current h) (controllers h)
      in \<lparr> controllers = cs @ [False], current = Some (length cs) \<rparr>)"

definition getSignal :: "Holder \<Rightarrow> Holder" where
  "getSignal h =
     (case current h of
        None \<Rightarrow> \<lparr> controllers = controllers h @ [False], current = Some (length (controllers h)) \<rparr>
      | Some i \<Rightarrow> h)"

definition abort :: "Holder \<Rightarrow> Holder" where
  "abort h =
     (case current h of
        None \<Rightarrow> h
      | Some i \<Rightarrow> \<lparr> controllers = (controllers h)[i := True], current = None \<rparr>)"

text \<open>The cleanup of the effect, run when the component unmounts.\<close>

definition unmount :: "Holder \<Rightarrow> Holder" where
  "unmount h = h\<lparr> controllers := abort_at (current h) (controllers h) \<rparr>"

text \<open>
  What can happen to a holder: a call of one of the three functions the hook
  returns, a render (which evaluates \<^verbatim>\<open>signal: getSignal()\<close>), or the unmount.
\<close>

datatype holder_op = CreateController | GetSignal | Abort | Render | Unmount

fun holder_step :: "Holder \<Rightarrow> holder_op \<Rightarrow> Holder" where
  "holder_step h CreateController = createController h"
| "holder_step h GetSignal = getSignal h"
| "holder_step h Abort = abort h"
| "holder_step h Render = getSignal h"
| "holder_step h Unmount = unmount h"

definition run_holder :: "holder_op list \<Rightarrow> Holder" where
  "run_holder ops = foldl holder_step new_holder ops"

definition live_controllers :: "Holder \<Rightarrow> nat" where
  "live_controllers h = length (filter (\<lambda>a. \<not> a) (controllers h))"

subsection \<open>Invariants of the cancellation scopes\<close>

text \<open>
  The positions of the controllers that are not aborted; a holder is well formed
  when at most its current controller is not aborted.
\<close>

definition live_idx :: "bool list \<Rightarrow> nat set" where
  "live_idx cs = {i. i < length cs \<and> \<not> cs ! i}"

definition holder_ok :: "Holder \<Rightarrow> bool" where
  "holder_ok h = (live_idx (controllers h) \<subseteq> set_option (current h)
                 \<and> (\<forall>i. current h = Some i \<longrightarrow> i < length (controllers h)))"

section \<open>The fetch coordinator\<close>

text \<open>
  Modelled from the spec: the coordinator that keeps the requests by query key
  belongs to the query library and is not under src/. Sections 3 and 4.2 of the
  specification: an in-flight request has its key and its cancellation token;
  \<open>ensureFresh\<close> on an entry that is being fetched returns the existing request
  and starts none; on an absent, stale or failed entry it creates a new
  cancellation scope and starts a fetch; a new request for a key aborts and
  replaces the previous one; the scope is aborted when the subscriber goes away
  before the fetch resolves. The cancellation scope of a key is a holder of the
  hook above, and a new scope is its \<open>createController\<close>. A key is written as
  its canonical string. An entry is being fetched exactly while a request for
  its key is in flight; \<open>ensureFresh\<close> on a fresh entry starts nothing and is
  not an event.
\<close>

record Request =
  req_key :: string
  req_controller :: nat
  req_settled :: bool

record Coordinator =
  scopes :: "string \<Rightarrow> Holder"
  requests :: "Request list"

datatype coord_event = EnsureFresh string | Supersede string | Complete nat | Detach string

text \<open>A request is in flight and not cancelled: not settled, its signal not aborted.\<close>

definition live_request :: "Coordinator \<Rightarrow> Request \<Rightarrow> bool" where
  "live_request s r =
     (\<not> req_settled r
      \<and> req_controller r < length (controllers (scopes s (req_key r)))
      \<and> \<not> controllers (scopes s (req_key r)) ! req_controller r)"

definition in_flight_for_key :: "Coordinator \<Rightarrow> string \<Rightarrow> Request list" where
  "in_flight_for_key s key = filter (\<lambda>r. req_key r = key \<and> live_request s r) (requests s)"

definition start_fetch :: "string \<Rightarrow> Coordinator \<Rightarrow> Coordinator" where
  "start_fetch key s =
     (let scope = createController (scopes s key)
      in \<lparr> scopes = (scopes s)(key := scope),
           requests = requests s @
             [\<lparr> req_key = key, req_controller = length (controllers scope) - 1,
                req_settled = False \<rparr>] \<rparr>)"

definition settle_request :: "Request \<Rightarrow> Request" where
  "settle_request r = r\<lparr> req_settled := True \<rparr>"

fun coord_step :: "Coordinator \<Rightarrow> coord_event \<Rightarrow> Coordinator" where
  "coord_step s (EnsureFresh key) =
     (if in_flight_for_key s key \<noteq> [] then s else start_fetch key s)"
| "coord_step s (Supersede key) = start_fetch key s"
| "coord_step s (Complete k) =
     (if k < length (requests s)
      then s\<lparr> requests := (requests s)[k := settle_request (requests s ! k)] \<rparr> else s)"
| "coord_step s (Detach key) = s\<lparr> scopes := (scopes s)(key := unmount (scopes s key)) \<rparr>"

definition idle_coordinator :: Coordinator where
  "idle_coordinator = \<lparr> scopes = (\<lambda>key. new_holder), requests = [] \<rparr>"

definition run_coordinator :: "coord_event list \<Rightarrow> Coordinator" where
  "run_coordinator evs = foldl coord_step idle_coordinator evs"

text \<open>
  A request is known by its key and its controller. The coordinator is well formed
  when every scope is, every request names a controller that exists, and no two
  requests share a controller.
\<close>

definition req_id :: "Request \<Rightarrow> string \<times> nat" where
  "req_id r = (req_key r, req_controller r)"

definition coord_ok :: "Coordinator \<Rightarrow> bool" where
  "coord_ok s = ((\<forall>key. holder_ok (scopes s key))
               \<and> (\<forall>r \<in> set (requests s). req_controller r < length (controllers (scopes s (req_key r))))
               \<and> distinct (map req_id (requests s)))"


section \<open>Retry options (src/providers/AppProvider.tsx and the data hooks)\<close>

text \<open>
  The value a failed request rejects with (\<^verbatim>\<open>ApiError\<close> of src/services/api.ts).
  The status is 0 for a network error; \<open>None\<close> stands for a thrown value that has
  no \<^verbatim>\<open>status\<close> field, for which \<^verbatim>\<open>error?.status >= 400\<close> is false.
\<close>

record ApiError =
  err_message :: string
  err_status :: "int option"

text \<open>
  The \<^verbatim>\<open>retry\<close> option is a boolean, a number or a function of the failure count
  and the error; \<^verbatim>\<open>retryDelay\<close> is left out, a number of milliseconds, or a
  function.
\<close>

datatype retry_option = RetryBool bool | RetryCount nat | RetryFn "nat \<Rightarrow> ApiError \<Rightarrow> bool"

datatype delay_option = DelayUnset | DelayMs nat | DelayFn "nat \<Rightarrow> ApiError \<Rightarrow> nat"

record RetryConfig =
  retry :: retry_option
  retryDelay :: delay_option

text \<open>The test \<^verbatim>\<open>error?.status >= 400 && error?.status < 500\<close>.\<close>

definition is_4xx :: "ApiError \<Rightarrow> bool" where
  "is_4xx e = (case err_status e of None \<Rightarrow> False | Some st \<Rightarrow> 400 \<le> st \<and> st < 500)"

text \<open>
  \<^verbatim>\<open>defaultOptions.queries.retry\<close> of the query client that AppProvider.tsx
  creates.
\<close>

definition queries_retry :: "nat \<Rightarrow> ApiError \<Rightarrow> bool" where
  "queries_retry failureCount e = (if is_4xx e then False else failureCount < 3)"

definition queries_defaults :: RetryConfig where
  "queries_defaults = \<lparr> retry = RetryFn queries_retry, retryDelay = DelayUnset \<rparr>"

text \<open>
  \<^verbatim>\<open>defaultOptions.queries.retry\<close> of the second query client, the one the
  \<^verbatim>\<open>App\<close> component creates (the second file in src/pages/OptimizedDashboard.tsx):
  no retry when \<^verbatim>\<open>error?.status === 401\<close>, else up to the third failure. That
  client sets no option for mutations.
\<close>

definition app_queries_retry :: "nat \<Rightarrow> ApiError \<Rightarrow> bool" where
  "app_queries_retry failureCount e = (if err_status e = Some 401 then False else failureCount < 3)"

definition app_queries_defaults :: RetryConfig where
  "app_queries_defaults = \<lparr> retry = RetryFn app_queries_retry, retryDelay = DelayUnset \<rparr>"

text \<open>
  \<^verbatim>\<open>defaultOptions.mutations\<close> of the client of AppProvider.tsx:
  \<^verbatim>\<open>retry: 1\<close>.
\<close>

definition mutations_defaults :: RetryConfig where
  "mutations_defaults = \<lparr> retry = RetryCount 1, retryDelay = DelayUnset \<rparr>"

text \<open>The options of \<^verbatim>\<open>useOptimizedDashboardStats\<close>, which repeats the function.\<close>

definition dashboardStats_retry :: "nat \<Rightarrow> ApiError \<Rightarrow> bool" where
  "dashboardStats_retry failureCount e = (if is_4xx e then False else failureCount < 3)"

definition dashboardStats_config :: RetryConfig where
  "dashboardStats_config = \<lparr> retry = RetryFn dashboardStats_retry, retryDelay = DelayUnset \<rparr>"

text \<open>The options of \<^verbatim>\<open>useApiHealth\<close>: \<^verbatim>\<open>retry: 3, retryDelay: 1000\<close>.\<close>

definition apiHealth_config :: RetryConfig where
  "apiHealth_config = \<lparr> retry = RetryCount 3, retryDelay = DelayMs 1000 \<rparr>"

subsection \<open>How the options are applied\<close>

text \<open>
  The hooks hand these options to the query library, whose code is not part of the
  repository. It applies them as its documentation says: after a failure it
  retries when \<^verbatim>\<open>retry\<close> is \<^verbatim>\<open>true\<close>, or a number above the count of
  failures so far, or a function that returns true for that count and the error;
  the count starts at 0. It then waits \<^verbatim>\<open>retryDelay\<close> (the number, or the
  function's result) and calls the function again. The delay used when
  \<^verbatim>\<open>retryDelay\<close> is left out is the library's own; it is the parameter
  \<open>backoff\<close>, a function of the failure count.
\<close>

definition shouldRetry :: "retry_option \<Rightarrow> nat \<Rightarrow> ApiError \<Rightarrow> bool" where
  "shouldRetry r failureCount e =
     (case r of
        RetryBool b \<Rightarrow> b
      | RetryCount n \<Rightarrow> failureCount < n
      | RetryFn f \<Rightarrow> f failureCount e)"

definition delayFor :: "delay_option \<Rightarrow> (nat \<Rightarrow> nat) \<Rightarrow> nat \<Rightarrow> ApiError \<Rightarrow> nat" where
  "delayFor d backoff failureCount e =
     (case d of
        DelayUnset \<Rightarrow> backoff failureCount
      | DelayMs ms \<Rightarrow> ms
      | DelayFn f \<Rightarrow> f failureCount e)"

text \<open>
  A request function is given by the results of its successive calls, \<open>Inl\<close> for a
  rejection. The run records how many times the function was called, the delays
  waited between the calls, and the final result; the result is \<open>None\<close> when the
  last call listed has not settled.
\<close>

record 'a Run =
  calls :: nat
  delays :: "nat list"
  outcome :: "(ApiError + 'a) option"

fun retryer :: "RetryConfig \<Rightarrow> (nat \<Rightarrow> nat) \<Rightarrow> nat \<Rightarrow> (ApiError + 'a) list \<Rightarrow> 'a Run" where
  "retryer cfg backoff failureCount [] = \<lparr> calls = 1, delays = [], outcome = None \<rparr>"
| "retryer cfg backoff failureCount (Inr v # rest) =
     \<lparr> calls = 1, delays = [], outcome = Some (Inr v) \<rparr>"
| "retryer cfg backoff failureCount (Inl e # rest) =
     (if shouldRetry (retry cfg) failureCount e then
        (let r = retryer cfg backoff (Suc failureCount) rest
         in \<lparr> calls = Suc (calls r),
              delays = delayFor (retryDelay cfg) backoff failureCount e # delays r,
              outcome = outcome r \<rparr>)
      else \<lparr> calls = 1, delays = [], outcome = Some (Inl e) \<rparr>)"

definition run_request :: "RetryConfig \<Rightarrow> (nat \<Rightarrow> nat) \<Rightarrow> (ApiError + 'a) list \<Rightarrow> 'a Run" where
  "run_request cfg backoff results = retryer cfg backoff 0 results"

text \<open>Errors and a backoff used in the examples.\<close>

definition http_error :: "int \<Rightarrow> ApiError" where
  "http_error st = \<lparr> err_message = ''HTTP'', err_status = Some st \<rparr>"

definition doubling :: "nat \<Rightarrow> nat" where
  "doubling failureCount = 1000 * 2 ^ failureCount"

section \<open>The query cache and the optimistic mutations (hooks of the data layer)\<close>

text \<open>
  A query key is an array; an element that is an object (the filters of a task
  list) is taken as its serialised text. The cache holds one query for each key
  in use, with its data (\<open>None\<close> for \<^verbatim>\<open>undefined\<close>) and its invalidation flag.
\<close>

type_synonym QueryKey = "string list"

record 'd Query =
  queryKey :: QueryKey
  query_data :: "'d option"
  isInvalidated :: bool

type_synonym 'd QueryCache = "'d Query list"

text \<open>
  The cache operations the hooks call are the query library's. They are modelled
  as documented: \<^verbatim>\<open>getQueryData\<close> reads the data of the query with that exact
  key; \<^verbatim>\<open>setQueryData\<close> applies the updater to it and stores the result, creating
  the query if there is none, and does nothing when the result is
  \<^verbatim>\<open>undefined\<close>; \<^verbatim>\<open>setQueriesData\<close> does so for every existing query whose key
  starts with the given key; \<^verbatim>\<open>invalidateQueries\<close> flags those queries and
  leaves their data; \<^verbatim>\<open>cancelQueries\<close> stops their requests and leaves their data.
\<close>

fun partialMatchKey :: "QueryKey \<Rightarrow> QueryKey \<Rightarrow> bool" where
  "partialMatchKey k [] = True"
| "partialMatchKey [] (p # ps) = False"
| "partialMatchKey (x # xs) (p # ps) = (x = p \<and> partialMatchKey xs ps)"

definition getQueryData :: "'d QueryCache \<Rightarrow> QueryKey \<Rightarrow> 'd option" where
  "getQueryData cache key =
     (case find (\<lambda>q. queryKey q = key) cache of None \<Rightarrow> None | Some q \<Rightarrow> query_data q)"

definition setQueryData :: "QueryKey \<Rightarrow> ('d option \<Rightarrow> 'd option) \<Rightarrow> 'd QueryCache \<Rightarrow> 'd QueryCache" where
  "setQueryData key updater cache =
     (case updater (getQueryData cache key) of
        None \<Rightarrow> cache
      | Some v \<Rightarrow>
          (if find (\<lambda>q. queryKey q = key) cache = None
           then cache @ [\<lparr> queryKey = key, query_data = Some v, isInvalidated = False \<rparr>]
           else map (\<lambda>q. if queryKey q = key
                          then q\<lparr> query_data := Some v, isInvalidated := False \<rparr> else q) cache))"

definition setQueriesData :: "QueryKey \<Rightarrow> ('d option \<Rightarrow> 'd option) \<Rightarrow> 'd QueryCache \<Rightarrow> 'd QueryCache" where
  "setQueriesData prefix updater cache =
     foldl (\<lambda>c key. setQueryData key updater c) cache
       (map queryKey (filter (\<lambda>q. partialMatchKey (queryKey q) prefix) cache))"

definition invalidateQueries :: "QueryKey \<Rightarrow> 'd QueryCache \<Rightarrow> 'd QueryCache" where
  "invalidateQueries prefix cache =
     map (\<lambda>q. if partialMatchKey (queryKey q) prefix then q\<lparr> isInvalidated := True \<rparr> else q) cache"

definition cancelQueries :: "QueryKey \<Rightarrow> 'd QueryCache \<Rightarrow> 'd QueryCache" where
  "cancelQueries prefix cache = cache"

subsection \<open>updateTaskStatusMutation of useOptimizedTasks\<close>

definition QUERY_KEYS_tasks :: QueryKey where
  "QUERY_KEYS_tasks = [''tasks'']"

definition set_task_status :: "string \<Rightarrow> string \<Rightarrow> Task list option \<Rightarrow> Task list option" where
  "set_task_status taskId st old =
     (case old of
        None \<Rightarrow> Some []
      | Some ts \<Rightarrow> Some (map (\<lambda>t. if task_id t = taskId then t\<lparr> task_status := st \<rparr> else t) ts))"

text \<open>\<^verbatim>\<open>onMutate\<close> returns the context \<^verbatim>\<open>{ previousTasks }\<close> with the patched cache.\<close>

definition updateTaskStatus_onMutate ::
  "string \<Rightarrow> string \<Rightarrow> Task list QueryCache \<Rightarrow> Task list QueryCache \<times> Task list option" where
  "updateTaskStatus_onMutate taskId st cache =
     (let c0 = cancelQueries QUERY_KEYS_tasks cache;
          previousTasks = getQueryData c0 QUERY_KEYS_tasks;
          c1 = setQueriesData [''tasks''] (set_task_status taskId st) c0
      in (c1, previousTasks))"

text \<open>
  \<^verbatim>\<open>if (context?.previousTasks)\<close>: an array, also an empty one, is truthy;
  \<^verbatim>\<open>undefined\<close> is not.
\<close>

definition updateTaskStatus_onError ::
  "Task list option \<Rightarrow> Task list QueryCache \<Rightarrow> Task list QueryCache" where
  "updateTaskStatus_onError previousTasks cache =
     (case previousTasks of
        None \<Rightarrow> cache
      | Some prev \<Rightarrow> setQueryData QUERY_KEYS_tasks (\<lambda>old. Some prev) cache)"

definition updateTaskStatus_onSettled :: "Task list QueryCache \<Rightarrow> Task list QueryCache" where
  "updateTaskStatus_onSettled cache = invalidateQueries [''tasks''] cache"

text \<open>
  The mutation as the library runs it: \<^verbatim>\<open>onMutate\<close>, then the write under the
  mutation defaults, then \<^verbatim>\<open>onError\<close> on a rejection, then \<^verbatim>\<open>onSettled\<close>. The
  write is given by the results of its successive calls.
\<close>

definition updateTaskStatusMutation ::
  "(nat \<Rightarrow> nat) \<Rightarrow> (ApiError + Task) list \<Rightarrow> string \<Rightarrow> string \<Rightarrow> Task list QueryCache
     \<Rightarrow> Task list QueryCache \<times> Task Run" where
  "updateTaskStatusMutation backoff writes taskId st cache =
     (let (c1, previousTasks) = updateTaskStatus_onMutate taskId st cache;
          r = run_request mutations_defaults backoff writes
      in case outcome r of
           None \<Rightarrow> (c1, r)
         | Some (Inr v) \<Rightarrow> (updateTaskStatus_onSettled c1, r)
         | Some (Inl e) \<Rightarrow> (updateTaskStatus_onSettled (updateTaskStatus_onError previousTasks c1), r))"

text \<open>
  A cache with the list of all tasks and a filtered list of the same task, as two
  uses of \<^verbatim>\<open>useOptimizedTasks\<close> leave it.
\<close>

definition pending_task :: Task where
  "pending_task = \<lparr> task_id = ''t1'', agentId = ''a1'', task_status = ''pending'', createdAt = ''2025-01-01'' \<rparr>"

definition two_task_queries :: "Task list QueryCache" where
  "two_task_queries =
     [\<lparr> queryKey = [''tasks''], query_data = Some [pending_task], isInvalidated = False \<rparr>,
      \<lparr> queryKey = [''tasks'', ''{status:pending}''], query_data = Some [pending_task],
        isInvalidated = False \<rparr>]"

section \<open>Session handling (useAuthStore.ts, the session hook, services/api.ts)\<close>

text \<open>
  What the logout and the 401 handler can reach: the authentication store, the
  state of the session hook, the browser's local storage, the query cache of the
  client, the toasts shown, and the timers set with \<^verbatim>\<open>setTimeout\<close> (delay in
  milliseconds and the address to load). Toasts are kept by their title, written
  without accents.
\<close>

record AuthUser =
  user_id :: string
  email :: string

record AuthState =
  isAuthenticated :: bool
  user :: "AuthUser option"
  isLoading :: bool
  auth_error :: "string option"

record 'd Client =
  authStore :: AuthState
  sessionState :: AuthState
  localStorage :: "string \<Rightarrow> string option"
  queryCache :: "'d QueryCache"
  toasts :: "string list"
  timers :: "(nat \<times> string) list"

definition removeItem :: "string \<Rightarrow> (string \<Rightarrow> string option) \<Rightarrow> (string \<Rightarrow> string option)" where
  "removeItem k ls = ls(k := None)"

definition remove_auth_items :: "(string \<Rightarrow> string option) \<Rightarrow> (string \<Rightarrow> string option)" where
  "remove_auth_items ls =
     removeItem ''user_data'' (removeItem ''refresh_token'' (removeItem ''auth_token'' ls))"

definition toast :: "string \<Rightarrow> 'd Client \<Rightarrow> 'd Client" where
  "toast title c = c\<lparr> toasts := toasts c @ [title] \<rparr>"

text \<open>\<^verbatim>\<open>actions.logout\<close> of the authentication store.\<close>

definition logout :: "'d Client \<Rightarrow> 'd Client" where
  "logout c =
     c\<lparr> authStore := \<lparr> isAuthenticated = False, user = None, isLoading = False, auth_error = None \<rparr>,
        localStorage := remove_auth_items (localStorage c) \<rparr>"

text \<open>\<^verbatim>\<open>apiService.clearAuthToken\<close>.\<close>

definition clearAuthToken :: "'d Client \<Rightarrow> 'd Client" where
  "clearAuthToken c = c\<lparr> localStorage := remove_auth_items (localStorage c) \<rparr>"

text \<open>\<^verbatim>\<open>logoutSession\<close> of the session hook.\<close>

definition logoutSession :: "'d Client \<Rightarrow> 'd Client" where
  "logoutSession c =
     toast ''Logout Realizado''
       (clearAuthToken
         (logout
           (c\<lparr> sessionState :=
                 \<lparr> isAuthenticated = False, user = None, isLoading = False, auth_error = None \<rparr> \<rparr>)))"

text \<open>\<^verbatim>\<open>handleUnauthorized\<close> of the API service.\<close>

definition handleUnauthorized :: "'d Client \<Rightarrow> 'd Client" where
  "handleUnauthorized c =
     (let c1 = c\<lparr> localStorage := remove_auth_items (localStorage c) \<rparr>;
          c2 = toast ''Sessao Expirada'' c1
      in c2\<lparr> timers := timers c2 @ [(2000, ''/login'')] \<rparr>)"

text \<open>
  \<^verbatim>\<open>handleGlobalError\<close>, the response interceptor: what it does to the client for
  the status of the failed response (0 when there was none) before it rejects.
\<close>

definition handleGlobalError :: "int \<Rightarrow> 'd Client \<Rightarrow> 'd Client" where
  "handleGlobalError st c =
     (if st = 401 then handleUnauthorized c
      else if st = 403 then toast ''Acesso Negado'' c
      else if st = 404 then toast ''Recurso Nao Encontrado'' c
      else if st = 422 then toast ''Erro de Validacao'' c
      else if st = 500 then toast ''Erro Interno do Servidor'' c
      else if st = 0 then toast ''Erro de Conexao'' c
      else toast ''Erro'' c)"

text \<open>A signed-in client with one cached query.\<close>

definition signed_in :: "string Client" where
  "signed_in =
     \<lparr> authStore = \<lparr> isAuthenticated = True, user = Some \<lparr> user_id = ''1'', email = ''u@x'' \<rparr>,
                     isLoading = False, auth_error = None \<rparr>,
       sessionState = \<lparr> isAuthenticated = True, user = Some \<lparr> user_id = ''1'', email = ''u@x'' \<rparr>,
                        isLoading = False, auth_error = None \<rparr>,
       localStorage = (\<lambda>k. None)(''auth_token'' := Some ''abc''),
       queryCache = [\<lparr> queryKey = [''agents''], query_data = Some ''agents of user 1'',
                       isInvalidated = False \<rparr>],
       toasts = [],
       timers = [] \<rparr>"

section \<open>Periodic refetch\<close>

text \<open>
  The \<^verbatim>\<open>refetchInterval\<close> options of the hooks, in milliseconds:
  \<^verbatim>\<open>60 * 1000\<close> in \<^verbatim>\<open>useOptimizedDashboardStats\<close>, \<^verbatim>\<open>30 * 1000\<close> in
  \<^verbatim>\<open>useOptimizedTasks\<close>.
\<close>

definition dashboardStats_refetchInterval :: nat where
  "dashboardStats_refetchInterval = 60 * 1000"

definition tasks_refetchInterval :: nat where
  "tasks_refetchInterval = 30 * 1000"

text \<open>
  Modelled from the spec: the timer that applies \<^verbatim>\<open>refetchInterval\<close> belongs to the
  query library and is not under src/. Section 4.5 of the specification: while a
  key has a subscriber, a refetch is scheduled every \<open>pollInterval\<close>; there is a
  single timer for a key, and it is cancelled at the tick after the subscriber
  count drops to 0. Time advances by ticks of one millisecond; \<open>timer\<close> is the
  time left until the next refetch.
\<close>

record Poller =
  subscriberCount :: nat
  timer :: "nat option"
  refetches :: nat

definition idle_poller :: Poller where
  "idle_poller = \<lparr> subscriberCount = 0, timer = None, refetches = 0 \<rparr>"

definition subscribe :: "nat \<Rightarrow> Poller \<Rightarrow> Poller" where
  "subscribe pollInterval p =
     p\<lparr> subscriberCount := Suc (subscriberCount p),
        timer := (case timer p of None \<Rightarrow> Some pollInterval | Some t \<Rightarrow> Some t) \<rparr>"

definition unsubscribe :: "Poller \<Rightarrow> Poller" where
  "unsubscribe p = p\<lparr> subscriberCount := subscriberCount p - 1 \<rparr>"

definition tick :: "nat \<Rightarrow> Poller \<Rightarrow> Poller" where
  "tick pollInterval p =
     (if subscriberCount p = 0 then p\<lparr> timer := None \<rparr>
      else case timer p of
             None \<Rightarrow> p
           | Some t \<Rightarrow> if t \<le> 1 then p\<lparr> timer := Some pollInterval, refetches := Suc (refetches p) \<rparr>
                       else p\<lparr> timer := Some (t - 1) \<rparr>)"

fun elapse :: "nat \<Rightarrow> nat \<Rightarrow> Poller \<Rightarrow> Poller" where
  "elapse pollInterval 0 p = p"
| "elapse pollInterval (Suc n) p = elapse pollInterval n (tick pollInterval p)"

section \<open>Staleness\<close>

text \<open>The \<^verbatim>\<open>staleTime\<close> of \<^verbatim>\<open>useAgents\<close>, in milliseconds: \<^verbatim>\<open>5 * 60 * 1000\<close>.\<close>

definition useAgents_staleTime :: int where
  "useAgents_staleTime = 5 * 60 * 1000"

text \<open>
  Modelled from the spec: the code that serves a cached entry and refetches it
  belongs to the query library and is not under src/; the hooks only set
  \<^verbatim>\<open>staleTime\<close> and \<^verbatim>\<open>gcTime\<close>. Sections 3, 4.1 and 4.2 of the specification: the
  cache entry, when it is stale, the three cases of \<open>ensureFresh\<close>, and
  \<open>cache.set\<close>. The result of \<open>ensureFresh\<close> is the entry afterwards, the data the
  caller has at once, and whether a fetch was started.
\<close>

datatype Status = Idle | Fetching | Success | Error

record 'd CacheEntry =
  entry_data :: "'d option"
  status :: Status
  entry_error :: "ApiError option"
  fetchedAt :: "int option"
  staleAfter :: int
  generation :: nat

definition is_stale :: "int \<Rightarrow> 'd CacheEntry \<Rightarrow> bool" where
  "is_stale now e = (case fetchedAt e of None \<Rightarrow> True | Some t \<Rightarrow> now - t > staleAfter e)"

record 'd Ensured =
  entry :: "'d CacheEntry"
  returned :: "'d option"
  started :: bool

definition ensureFresh :: "int \<Rightarrow> 'd CacheEntry \<Rightarrow> 'd Ensured" where
  "ensureFresh now e =
     (if status e = Fetching then \<lparr> entry = e, returned = entry_data e, started = False \<rparr>
      else if status e = Success \<and> \<not> is_stale now e
      then \<lparr> entry = e, returned = entry_data e, started = False \<rparr>
      else \<lparr> entry = e\<lparr> status := Fetching, generation := Suc (generation e) \<rparr>,
             returned = entry_data e, started = True \<rparr>)"

definition cache_set :: "int \<Rightarrow> 'd \<Rightarrow> 'd CacheEntry \<Rightarrow> 'd CacheEntry" where
  "cache_set now d e =
     e\<lparr> entry_data := Some d, status := Success, entry_error := None, fetchedAt := Some now \<rparr>"

text \<open>An entry fetched at time 0 with the staleness window of \<^verbatim>\<open>useAgents\<close>.\<close>

definition old_entry :: "string CacheEntry" where
  "old_entry =
     \<lparr> entry_data = Some ''agents'', status = Success, entry_error = None, fetchedAt = Some 0,
       staleAfter = useAgents_staleTime, generation = 1 \<rparr>"

section \<open>Pagination of the filtered tasks\<close>






section \<open>Campaign metrics\<close>

lemma foldl_add_campaign:
  "foldl add_campaign acc cs =
     \<lparr> totalBudget = totalBudget acc + sum_list (map budget cs),
       totalSpent = totalSpent acc + sum_list (map spent cs),
       totalImpressions = totalImpressions acc + sum_list (map impressions cs),
       totalClicks = totalClicks acc + sum_list (map clicks cs),
       totalConversions = totalConversions acc + sum_list (map conversions cs) \<rparr>"
  by (induction cs arbitrary: acc) (simp_all add: add_campaign_def add.assoc)

lemma percent_of_defined: "percent_of a b \<noteq> None"
  by (simp add: percent_of_def js_divide_def)

lemma percent_of_zero: "b = 0 \<Longrightarrow> percent_of a b = Some 0"
  by (simp add: percent_of_def)

text \<open>
  Claim C9. For every list of campaigns the three ratios are finite numbers, so
  no division by zero takes place; the click-through rate is 0 when the total of
  impressions is 0, the conversion rate is 0 when the total of clicks is 0, the
  budget utilisation is 0 when the total budget is 0; and the totals and the
  count are those of the campaigns whose status is \<open>active\<close>.
\<close>

theorem useCampaignMetrics_guarded:
  "avgCTR (useCampaignMetrics cs) \<noteq> None
   \<and> avgCVR (useCampaignMetrics cs) \<noteq> None
   \<and> budgetUtilization (useCampaignMetrics cs) \<noteq> None
   \<and> (totalImpressions (metrics (useCampaignMetrics cs)) = 0 \<longrightarrow> avgCTR (useCampaignMetrics cs) = Some 0)
   \<and> (totalClicks (metrics (useCampaignMetrics cs)) = 0 \<longrightarrow> avgCVR (useCampaignMetrics cs) = Some 0)
   \<and> (totalBudget (metrics (useCampaignMetrics cs)) = 0 \<longrightarrow> budgetUtilization (useCampaignMetrics cs) = Some 0)
   \<and> metrics (useCampaignMetrics cs) =
       \<lparr> totalBudget = sum_list (map budget (filter is_active cs)),
         totalSpent = sum_list (map spent (filter is_active cs)),
         totalImpressions = sum_list (map impressions (filter is_active cs)),
         totalClicks = sum_list (map clicks (filter is_active cs)),
         totalConversions = sum_list (map conversions (filter is_active cs)) \<rparr>
   \<and> activeCampaigns (useCampaignMetrics cs) = int (length (filter is_active cs))"
  by (simp add: useCampaignMetrics_def Let_def percent_of_defined percent_of_zero
      foldl_add_campaign zero_totals_def)

theorem useCampaignMetrics_guarded_witness:
  "totalImpressions (metrics (useCampaignMetrics sample_campaigns)) = 0
   \<and> totalClicks (metrics (useCampaignMetrics sample_campaigns)) = 0
   \<and> totalBudget (metrics (useCampaignMetrics sample_campaigns)) = 0
   \<and> avgCTR (useCampaignMetrics sample_campaigns) = Some 0
   \<and> avgCVR (useCampaignMetrics sample_campaigns) = Some 0
   \<and> budgetUtilization (useCampaignMetrics sample_campaigns) = Some 0
   \<and> activeCampaigns (useCampaignMetrics sample_campaigns) = 1"
proof -
  have active: "filter is_active sample_campaigns =
      [\<lparr> campaign_id = ''c1'', campaign_status = ''active'', budget = 0, spent = 0,
         impressions = 0, clicks = 0, conversions = 0 \<rparr>]"
    by (simp add: sample_campaigns_def is_active_def)
  show ?thesis
    using useCampaignMetrics_guarded [of sample_campaigns]
    by (simp add: active)
qed

section \<open>Retries\<close>

lemma mutation_shouldRetry:
  "shouldRetry (retry mutations_defaults) n e = (n = 0)"
  by (auto simp: shouldRetry_def mutations_defaults_def)

lemma mutation_delay:
  "delayFor (retryDelay mutations_defaults) backoff n e = backoff n"
  by (simp add: delayFor_def mutations_defaults_def)

lemma retryer_calls_bound:
  assumes "\<And>n e. shouldRetry (retry cfg) n e \<Longrightarrow> n < k"
  shows "calls (retryer cfg backoff n results) \<le> Suc (k - n)"
proof (induction results arbitrary: n)
  case Nil
  then show ?case by simp
next
  case (Cons r rest)
  show ?case
  proof (cases r)
    case (Inr v)
    then show ?thesis by simp
  next
    case (Inl e)
    show ?thesis
    proof (cases "shouldRetry (retry cfg) n e")
      case False
      then show ?thesis using Inl by simp
    next
      case True
      then have "n < k" by (rule assms)
      moreover have "calls (retryer cfg backoff (Suc n) rest) \<le> Suc (k - Suc n)"
        by (rule Cons.IH)
      ultimately show ?thesis using Inl True by (simp add: Let_def)
    qed
  qed
qed

lemma mutation_calls_le_2: "calls (run_request mutations_defaults backoff results) \<le> 2"
  using retryer_calls_bound [of mutations_defaults 1 backoff 0 results]
  by (simp add: run_request_def mutation_shouldRetry)

text \<open>
  Claim C1, as stated: under the mutation defaults of the client of
  AppProvider.tsx a write that rejects with status 500 is called a second time,
  and when that call succeeds the mutation settles with the success, not with
  the error.
\<close>

theorem mutation_retry_counterexample:
  "run_request mutations_defaults doubling [Inl (http_error 500), Inr ''saved'']
     = \<lparr> calls = 2, delays = [1000], outcome = Some (Inr ''saved'') \<rparr>"
  by (simp add: run_request_def Let_def shouldRetry_def delayFor_def mutations_defaults_def doubling_def)

text \<open>
  Claim C1, amended. Under the mutation defaults of the client of
  AppProvider.tsx (\<^verbatim>\<open>retry: 1\<close>) a write is called at most twice. A write that
  succeeds at once is called once. A first rejection, of any error, is followed
  by exactly one more call, and the mutation settles with the result of that
  call: its success, or its error, with no further call.
\<close>

theorem mutation_retried_once:
  "calls (run_request mutations_defaults backoff results) \<le> 2
   \<and> run_request mutations_defaults backoff (Inr v # rest)
       = \<lparr> calls = 1, delays = [], outcome = Some (Inr v) \<rparr>
   \<and> calls (run_request mutations_defaults backoff (Inl e # rest)) = 2
   \<and> run_request mutations_defaults backoff (Inl e # Inr v # rest)
       = \<lparr> calls = 2, delays = [backoff 0], outcome = Some (Inr v) \<rparr>
   \<and> run_request mutations_defaults backoff (Inl e # Inl e' # rest)
       = \<lparr> calls = 2, delays = [backoff 0], outcome = Some (Inl e') \<rparr>"
proof -
  have second: "calls (retryer mutations_defaults backoff (Suc 0) rest) = 1"
  proof (cases rest)
    case Nil
    then show ?thesis by simp
  next
    case (Cons r rs)
    then show ?thesis by (cases r) (simp_all add: mutation_shouldRetry)
  qed
  have c1: "calls (run_request mutations_defaults backoff results) \<le> 2"
    by (rule mutation_calls_le_2)
  have c2: "run_request mutations_defaults backoff (Inr v # rest)
       = \<lparr> calls = 1, delays = [], outcome = Some (Inr v) \<rparr>"
    by (simp add: run_request_def)
  have c3: "calls (run_request mutations_defaults backoff (Inl e # rest)) = 2"
    by (simp add: run_request_def Let_def mutation_shouldRetry second)
  have c4: "run_request mutations_defaults backoff (Inl e # Inr v # rest)
       = \<lparr> calls = 2, delays = [backoff 0], outcome = Some (Inr v) \<rparr>"
    by (simp add: run_request_def Let_def mutation_shouldRetry mutation_delay)
  have c5: "run_request mutations_defaults backoff (Inl e # Inl e' # rest)
       = \<lparr> calls = 2, delays = [backoff 0], outcome = Some (Inl e') \<rparr>"
    by (simp add: run_request_def Let_def mutation_shouldRetry mutation_delay)
  show ?thesis using c1 c2 c3 c4 c5 by simp
qed

lemma queries_shouldRetry:
  "shouldRetry (retry queries_defaults) n e \<longleftrightarrow> \<not> is_4xx e \<and> n < 3"
  by (simp add: shouldRetry_def queries_defaults_def queries_retry_def)

lemma dashboardStats_shouldRetry:
  "shouldRetry (retry dashboardStats_config) n e \<longleftrightarrow> \<not> is_4xx e \<and> n < 3"
  by (simp add: shouldRetry_def dashboardStats_config_def dashboardStats_retry_def)

lemma apiHealth_shouldRetry:
  "shouldRetry (retry apiHealth_config) n e \<longleftrightarrow> n < 3"
  by (simp add: shouldRetry_def apiHealth_config_def)

lemma app_queries_shouldRetry:
  "shouldRetry (retry app_queries_defaults) n e \<longleftrightarrow> err_status e \<noteq> Some 401 \<and> n < 3"
  by (simp add: shouldRetry_def app_queries_defaults_def app_queries_retry_def)

lemma unset_delays:
  "delayFor (retryDelay queries_defaults) backoff n e = backoff n"
  "delayFor (retryDelay dashboardStats_config) backoff n e = backoff n"
  "delayFor (retryDelay app_queries_defaults) backoff n e = backoff n"
  "delayFor (retryDelay apiHealth_config) backoff n e = 1000"
  by (simp_all add: delayFor_def queries_defaults_def dashboardStats_config_def
      app_queries_defaults_def apiHealth_config_def)

lemma calls_le_4:
  "calls (run_request queries_defaults backoff results) \<le> 4"
  "calls (run_request dashboardStats_config backoff results) \<le> 4"
  "calls (run_request apiHealth_config backoff results) \<le> 4"
  "calls (run_request app_queries_defaults backoff results) \<le> 4"
  using retryer_calls_bound [of queries_defaults 3 backoff 0 results]
    retryer_calls_bound [of dashboardStats_config 3 backoff 0 results]
    retryer_calls_bound [of apiHealth_config 3 backoff 0 results]
    retryer_calls_bound [of app_queries_defaults 3 backoff 0 results]
  by (simp_all add: run_request_def queries_shouldRetry dashboardStats_shouldRetry
      apiHealth_shouldRetry app_queries_shouldRetry)

text \<open>
  Claim C3, as stated: the health check retries a 404 three times, one second
  apart each time, and the default options do not retry a 429.
\<close>

theorem read_retry_counterexample:
  "run_request apiHealth_config doubling
       [Inl (http_error 404), Inl (http_error 404), Inl (http_error 404), Inl (http_error 404)]
     = \<lparr> calls = 4, delays = [1000, 1000, 1000],
         outcome = Some (Inl (http_error 404)) :: (ApiError + unit) option \<rparr>
   \<and> run_request queries_defaults doubling [Inl (http_error 429), Inr ()]
     = \<lparr> calls = 1, delays = [], outcome = Some (Inl (http_error 429)) \<rparr>"
  by (simp add: run_request_def shouldRetry_def delayFor_def apiHealth_config_def
      queries_defaults_def queries_retry_def Let_def eval_nat_numeral is_4xx_def http_error_def)

text \<open>
  Claim C3, amended. Under the query defaults of the client of AppProvider.tsx
  and the options of the dashboard statistics, a failure is retried exactly when
  its status is outside 400 to 499 and fewer than three failures came before:
  a status from 400 to 499, 429 included, is final at whatever call it occurs,
  and failures with other statuses (no response, 5xx) are retried up to three
  times, after the library's delay for 0, 1 and 2 failures. Under the query
  defaults of the client of the \<open>App\<close> component a failure is retried exactly
  when its status is not 401 and fewer than three failures came before. The
  health check retries every error while fewer than three failures came before,
  one second apart. In every case the request function is called at most four
  times, and the error is the result only after the last call.
\<close>

theorem read_retry_policy:
  "(shouldRetry (retry queries_defaults) n e \<longleftrightarrow> \<not> is_4xx e \<and> n < 3)
   \<and> (shouldRetry (retry dashboardStats_config) n e \<longleftrightarrow> \<not> is_4xx e \<and> n < 3)
   \<and> (shouldRetry (retry apiHealth_config) n e \<longleftrightarrow> n < 3)
   \<and> (shouldRetry (retry app_queries_defaults) n e \<longleftrightarrow> err_status e \<noteq> Some 401 \<and> n < 3)
   \<and> delayFor (retryDelay queries_defaults) backoff n e = backoff n
   \<and> delayFor (retryDelay dashboardStats_config) backoff n e = backoff n
   \<and> delayFor (retryDelay app_queries_defaults) backoff n e = backoff n
   \<and> delayFor (retryDelay apiHealth_config) backoff n e = 1000
   \<and> (is_4xx e \<longrightarrow>
        retryer queries_defaults backoff n (Inl e # rest)
          = \<lparr> calls = 1, delays = [], outcome = Some (Inl e) \<rparr>
      \<and> retryer dashboardStats_config backoff n (Inl e # rest)
          = \<lparr> calls = 1, delays = [], outcome = Some (Inl e) \<rparr>)
   \<and> (\<not> is_4xx e0 \<and> \<not> is_4xx e1 \<and> \<not> is_4xx e2 \<longrightarrow>
        run_request queries_defaults backoff (Inl e0 # Inl e1 # Inl e2 # Inl e3 # rest)
          = \<lparr> calls = 4, delays = [backoff 0, backoff 1, backoff 2], outcome = Some (Inl e3) \<rparr>
      \<and> run_request dashboardStats_config backoff (Inl e0 # Inl e1 # Inl e2 # Inl e3 # rest)
          = \<lparr> calls = 4, delays = [backoff 0, backoff 1, backoff 2], outcome = Some (Inl e3) \<rparr>)
   \<and> run_request apiHealth_config backoff (Inl e0 # Inl e1 # Inl e2 # Inl e3 # rest)
        = \<lparr> calls = 4, delays = [1000, 1000, 1000], outcome = Some (Inl e3) \<rparr>
   \<and> calls (run_request queries_defaults backoff results) \<le> 4
   \<and> calls (run_request dashboardStats_config backoff results) \<le> 4
   \<and> calls (run_request apiHealth_config backoff results) \<le> 4
   \<and> calls (run_request app_queries_defaults backoff results) \<le> 4
   \<and> is_4xx (http_error 429)"
proof -
  have final: "is_4xx e \<longrightarrow>
        retryer queries_defaults backoff n (Inl e # rest)
          = \<lparr> calls = 1, delays = [], outcome = Some (Inl e) \<rparr>
      \<and> retryer dashboardStats_config backoff n (Inl e # rest)
          = \<lparr> calls = 1, delays = [], outcome = Some (Inl e) \<rparr>"
    by (simp add: queries_shouldRetry dashboardStats_shouldRetry)
  have transient: "\<not> is_4xx e0 \<and> \<not> is_4xx e1 \<and> \<not> is_4xx e2 \<longrightarrow>
        run_request queries_defaults backoff (Inl e0 # Inl e1 # Inl e2 # Inl e3 # rest)
          = \<lparr> calls = 4, delays = [backoff 0, backoff 1, backoff 2], outcome = Some (Inl e3) \<rparr>
      \<and> run_request dashboardStats_config backoff (Inl e0 # Inl e1 # Inl e2 # Inl e3 # rest)
          = \<lparr> calls = 4, delays = [backoff 0, backoff 1, backoff 2], outcome = Some (Inl e3) \<rparr>"
    by (simp add: run_request_def Let_def queries_shouldRetry dashboardStats_shouldRetry
        unset_delays eval_nat_numeral)
  have health: "run_request apiHealth_config backoff (Inl e0 # Inl e1 # Inl e2 # Inl e3 # rest)
        = \<lparr> calls = 4, delays = [1000, 1000, 1000], outcome = Some (Inl e3) \<rparr>"
    by (simp add: run_request_def Let_def apiHealth_shouldRetry unset_delays eval_nat_numeral)
  have too_many: "is_4xx (http_error 429)"
    by (simp add: is_4xx_def http_error_def)
  show ?thesis
    using final transient health too_many
    by (simp only: queries_shouldRetry dashboardStats_shouldRetry apiHealth_shouldRetry
        app_queries_shouldRetry unset_delays calls_le_4 simp_thms)
qed

theorem read_retry_policy_witness:
  "is_4xx (http_error 429)
   \<and> \<not> is_4xx (http_error 503) \<and> \<not> is_4xx (http_error 0)
   \<and> retryer queries_defaults doubling 2 [Inl (http_error 429), Inr ()]
        = \<lparr> calls = 1, delays = [], outcome = Some (Inl (http_error 429)) \<rparr>
   \<and> run_request queries_defaults doubling
        [Inl (http_error 503), Inl (http_error 0), Inl (http_error 503), Inl (http_error 500), Inr ()]
        = \<lparr> calls = 4, delays = [1000, 2000, 4000], outcome = Some (Inl (http_error 500)) \<rparr>
   \<and> shouldRetry (retry app_queries_defaults) 2 (http_error 429)"
proof -
  have a: "is_4xx (http_error 429)"
    by (simp add: is_4xx_def http_error_def)
  have b: "\<not> is_4xx (http_error 503) \<and> \<not> is_4xx (http_error 0) \<and> \<not> is_4xx (http_error 503)"
    by (simp add: is_4xx_def http_error_def)
  have c: "err_status (http_error 429) \<noteq> Some 401"
    by (simp add: http_error_def)
  show ?thesis
    using a b c
      read_retry_policy [where e = "http_error 429" and n = 2 and backoff = doubling
        and rest = "[Inr ()]" and ?e0.0 = "http_error 503" and ?e1.0 = "http_error 0"
        and ?e2.0 = "http_error 503" and ?e3.0 = "http_error 500" and results = "[]"]
    by (auto simp: doubling_def simp del: retryer.simps)
qed

section \<open>Rollback of the optimistic task update\<close>

text \<open>
  Claim C2 at a failing input. The cache holds the list of all tasks and a
  filtered list, both with task \<open>t1\<close> pending. The mutation sets \<open>t1\<close> to
  completed and the write rejects twice. The patch changed both lists; the
  rollback restores the list of all tasks only, and the filtered list keeps the
  status that the server refused.
\<close>

theorem filtered_tasks_not_rolled_back:
  "getQueryData two_task_queries [''tasks'', ''{status:pending}''] = Some [pending_task]
   \<and> outcome (snd (updateTaskStatusMutation doubling [Inl (http_error 500), Inl (http_error 500)]
         ''t1'' ''completed'' two_task_queries)) = Some (Inl (http_error 500))
   \<and> getQueryData (fst (updateTaskStatusMutation doubling [Inl (http_error 500), Inl (http_error 500)]
         ''t1'' ''completed'' two_task_queries)) [''tasks'']
       = Some [pending_task]
   \<and> getQueryData (fst (updateTaskStatusMutation doubling [Inl (http_error 500), Inl (http_error 500)]
         ''t1'' ''completed'' two_task_queries)) [''tasks'', ''{status:pending}'']
       = Some [pending_task\<lparr> task_status := ''completed'' \<rparr>]"
  by (simp add: updateTaskStatusMutation_def updateTaskStatus_onMutate_def updateTaskStatus_onError_def
      updateTaskStatus_onSettled_def run_request_def mutations_defaults_def shouldRetry_def delayFor_def
      cancelQueries_def setQueriesData_def setQueryData_def getQueryData_def invalidateQueries_def
      set_task_status_def two_task_queries_def pending_task_def QUERY_KEYS_tasks_def Let_def)

section \<open>Logout and unauthorized responses\<close>

text \<open>
  Claim C4, as stated: after the logout of the session hook, and after the
  handling of a 401 response, the cached query of the signed-in client is still
  readable.
\<close>

theorem cache_survives_logout:
  "getQueryData (queryCache (logoutSession signed_in)) [''agents''] = Some ''agents of user 1''
   \<and> getQueryData (queryCache (handleGlobalError 401 signed_in)) [''agents''] = Some ''agents of user 1''"
  by (simp add: logoutSession_def logout_def clearAuthToken_def toast_def handleGlobalError_def
      handleUnauthorized_def signed_in_def getQueryData_def Let_def)

text \<open>
  Claim C4, amended. The logout and the handling of a 401 response remove the
  access token, the refresh token and the user data from local storage at once,
  and the logout resets the authentication store; the query cache is left as it
  was. The 401 handler sets a timer of two seconds that loads the login page.
\<close>

theorem logout_clears_credentials_only:
  "queryCache (logout c) = queryCache c
   \<and> queryCache (logoutSession c) = queryCache c
   \<and> queryCache (handleGlobalError 401 c) = queryCache c
   \<and> authStore (logoutSession c)
        = \<lparr> isAuthenticated = False, user = None, isLoading = False, auth_error = None \<rparr>
   \<and> localStorage (logoutSession c) ''auth_token'' = None
   \<and> localStorage (logoutSession c) ''refresh_token'' = None
   \<and> localStorage (logoutSession c) ''user_data'' = None
   \<and> localStorage (handleGlobalError 401 c) ''auth_token'' = None
   \<and> localStorage (handleGlobalError 401 c) ''refresh_token'' = None
   \<and> localStorage (handleGlobalError 401 c) ''user_data'' = None
   \<and> timers (handleGlobalError 401 c) = timers c @ [(2000, ''/login'')]"
  by (simp add: logoutSession_def logout_def clearAuthToken_def toast_def handleGlobalError_def
      handleUnauthorized_def Let_def remove_auth_items_def removeItem_def)

section \<open>Polling periods\<close>

lemma elapse_refetches:
  assumes "0 < subscriberCount p" and "timer p = Some t" and "1 \<le> t" and "t \<le> I"
  shows "refetches (elapse I n p) = refetches p + (n + I - t) div I
       \<and> subscriberCount (elapse I n p) = subscriberCount p"
  using assms
proof (induction n arbitrary: p t)
  case 0
  then show ?case by simp
next
  case (Suc n)
  show ?case
  proof (cases "t \<le> 1")
    case True
    then have t1: "t = 1" using Suc.prems by simp
    let ?p = "tick I p"
    have tk: "?p = p\<lparr> timer := Some I, refetches := Suc (refetches p) \<rparr>"
      using Suc.prems t1 by (simp add: tick_def)
    have I: "1 \<le> I" using Suc.prems by simp
    have "refetches (elapse I n ?p) = refetches ?p + (n + I - I) div I
       \<and> subscriberCount (elapse I n ?p) = subscriberCount ?p"
      by (rule Suc.IH) (use Suc.prems tk I in simp_all)
    moreover have "(Suc n + I - 1) div I = Suc (n div I)"
      using I by simp
    ultimately show ?thesis using tk t1 by simp
  next
    case False
    let ?p = "tick I p"
    have tk: "?p = p\<lparr> timer := Some (t - 1) \<rparr>"
      using Suc.prems False by (simp add: tick_def)
    have "refetches (elapse I n ?p) = refetches ?p + (n + I - (t - 1)) div I
       \<and> subscriberCount (elapse I n ?p) = subscriberCount ?p"
      by (rule Suc.IH) (use Suc.prems tk False in simp_all)
    moreover have "n + I - (t - 1) = Suc n + I - t"
      using False Suc.prems by simp
    ultimately show ?thesis using tk by simp
  qed
qed

lemma elapse_first_subscriber:
  assumes "0 < I"
  shows "refetches (elapse I n (subscribe I idle_poller)) = n div I"
  using elapse_refetches [of "subscribe I idle_poller" I I n] assms
  by (simp add: subscribe_def idle_poller_def)

text \<open>
  Claim C7, as stated: the period of the dashboard statistics is not 30 seconds,
  and 30 seconds after the first subscriber no refetch has been scheduled.
\<close>

theorem stats_period_counterexample:
  "dashboardStats_refetchInterval \<noteq> 30 * 1000
   \<and> refetches (elapse dashboardStats_refetchInterval 30000
        (subscribe dashboardStats_refetchInterval idle_poller)) = 0"
  using elapse_first_subscriber [of dashboardStats_refetchInterval 30000]
  by (simp add: dashboardStats_refetchInterval_def)

text \<open>
  Claim C7, amended. While a live key has a subscriber, a refetch is scheduled at
  a fixed period, 60 seconds for the dashboard statistics and 30 seconds for the
  task lists: \<open>n\<close> milliseconds after the first subscriber, the number of
  refetches is \<open>n\<close> divided by the period.
\<close>

theorem refetch_periods:
  "refetches (elapse dashboardStats_refetchInterval n (subscribe dashboardStats_refetchInterval idle_poller))
     = n div 60000
   \<and> refetches (elapse tasks_refetchInterval n (subscribe tasks_refetchInterval idle_poller))
     = n div 30000"
  using elapse_first_subscriber [of dashboardStats_refetchInterval n]
    elapse_first_subscriber [of tasks_refetchInterval n]
  by (simp add: dashboardStats_refetchInterval_def tasks_refetchInterval_def)

section \<open>Stale entries\<close>

text \<open>
  Claim C6. For an entry with status Success whose age exceeds its staleness
  window, \<open>ensureFresh\<close> returns the cached data at once and starts a fetch; the
  entry is then Fetching and still holds the stale data, which stays until the
  result of the fetch is stored. By the invariant of the entry, one with status
  Success has its data and the time of its fetch.
\<close>

theorem stale_entry_served_while_refetching:
  assumes "status e = Success" and "entry_data e = Some d"
    and "fetchedAt e = Some t" and "now - t > staleAfter e"
  shows "returned (ensureFresh now e) = Some d
       \<and> started (ensureFresh now e)
       \<and> status (entry (ensureFresh now e)) = Fetching
       \<and> entry_data (entry (ensureFresh now e)) = Some d
       \<and> entry_data (cache_set later d' (entry (ensureFresh now e))) = Some d'"
  using assms by (simp add: ensureFresh_def is_stale_def cache_set_def)

theorem stale_entry_served_while_refetching_witness:
  "status old_entry = Success \<and> entry_data old_entry = Some ''agents''
   \<and> fetchedAt old_entry = Some 0 \<and> 300001 - 0 > staleAfter old_entry
   \<and> returned (ensureFresh 300001 old_entry) = Some ''agents''
   \<and> started (ensureFresh 300001 old_entry)
   \<and> status (entry (ensureFresh 300001 old_entry)) = Fetching
   \<and> entry_data (entry (ensureFresh 300001 old_entry)) = Some ''agents''
   \<and> entry_data (cache_set 300500 ''agents, refetched'' (entry (ensureFresh 300001 old_entry)))
        = Some ''agents, refetched''"
proof -
  have h: "status old_entry = Success" "entry_data old_entry = Some ''agents''"
    "fetchedAt old_entry = Some 0" "300001 - 0 > staleAfter old_entry"
    by (simp_all add: old_entry_def useAgents_staleTime_def)
  show ?thesis
    using h stale_entry_served_while_refetching [OF h, of 300500 "''agents, refetched''"]
    by simp
qed

section \<open>One live controller for each holder\<close>

text \<open>
  Aborting a controller removes its position from the live ones and a new
  controller adds its own; every operation of the hook keeps the holder well
  formed.
\<close>

lemma live_idx_update: "live_idx (cs[i := True]) = live_idx cs - {i}"
proof (cases "i < length cs")
  case True
  then show ?thesis by (auto simp: live_idx_def nth_list_update)
next
  case False
  then show ?thesis by (auto simp: live_idx_def)
qed

lemma live_idx_append: "live_idx (cs @ [False]) = insert (length cs) (live_idx cs)"
  by (auto simp: live_idx_def nth_append less_Suc_eq)

lemma live_idx_abort_at: "live_idx (abort_at r cs) = live_idx cs - set_option r"
  by (cases r) (simp_all add: abort_at_def live_idx_update)

lemma length_abort_at: "length (abort_at r cs) = length cs"
  by (cases r) (simp_all add: abort_at_def)

lemma live_controllers_card: "live_controllers h = card (live_idx (controllers h))"
  by (simp add: live_controllers_def live_idx_def length_filter_conv_card)

lemma all_True_replicate: "(\<forall>a \<in> set xs. a) \<Longrightarrow> xs = replicate (length xs) True"
  by (rule replicate_length_same [symmetric]) simp

lemma holder_ok_new: "holder_ok new_holder"
  by (simp add: holder_ok_def new_holder_def live_idx_def)

lemma holder_ok_createController: "holder_ok h \<Longrightarrow> holder_ok (createController h)"
  by (auto simp: holder_ok_def createController_def Let_def live_idx_append live_idx_abort_at
      length_abort_at)

lemma holder_ok_getSignal: "holder_ok h \<Longrightarrow> holder_ok (getSignal h)"
  by (cases "current h") (auto simp: holder_ok_def getSignal_def live_idx_append)

lemma holder_ok_abort: "holder_ok h \<Longrightarrow> holder_ok (abort h)"
  by (cases "current h") (auto simp: holder_ok_def abort_def live_idx_update)

lemma holder_ok_unmount: "holder_ok h \<Longrightarrow> holder_ok (unmount h)"
  by (auto simp: holder_ok_def unmount_def live_idx_abort_at length_abort_at)

lemma holder_ok_step: "holder_ok h \<Longrightarrow> holder_ok (holder_step h x)"
  by (cases x) (simp_all add: holder_ok_createController holder_ok_getSignal holder_ok_abort holder_ok_unmount)

lemma holder_ok_foldl: "holder_ok h \<Longrightarrow> holder_ok (foldl holder_step h ops)"
  by (induction ops arbitrary: h) (simp_all add: holder_ok_step)

lemma holder_ok_live:
  assumes "holder_ok h"
  shows "live_controllers h \<le> 1"
proof -
  have sub: "live_idx (controllers h) \<subseteq> set_option (current h)"
    using assms by (simp add: holder_ok_def)
  have "card (set_option (current h)) \<le> 1"
    by (cases "current h") simp_all
  moreover have "card (live_idx (controllers h)) \<le> card (set_option (current h))"
    using sub by (intro card_mono) simp_all
  ultimately show ?thesis by (simp add: live_controllers_card)
qed

text \<open>
  Claim C8. Within one holder, after any sequence of calls, renders and
  unmounts, at most one controller is not aborted. A call of
  \<open>createController\<close> leaves every controller created before it aborted and
  makes the new one current, so that exactly one is live; the unmount leaves
  none live.
\<close>

theorem one_live_controller_per_holder:
  "live_controllers (run_holder ops) \<le> 1
   \<and> live_controllers (createController (run_holder ops)) = 1
   \<and> current (createController (run_holder ops)) = Some (length (controllers (run_holder ops)))
   \<and> take (length (controllers (run_holder ops))) (controllers (createController (run_holder ops)))
        = replicate (length (controllers (run_holder ops))) True
   \<and> live_controllers (unmount (run_holder ops)) = 0"
proof -
  have ok: "holder_ok (run_holder ops)"
    unfolding run_holder_def by (rule holder_ok_foldl) (rule holder_ok_new)
  have sub: "live_idx (controllers (run_holder ops)) \<subseteq> set_option (current (run_holder ops))"
    using ok by (simp add: holder_ok_def)
  have bound: "\<forall>i. current (run_holder ops) = Some i \<longrightarrow> i < length (controllers (run_holder ops))"
    using ok by (simp add: holder_ok_def)
  have c1: "live_controllers (run_holder ops) \<le> 1"
    by (rule holder_ok_live [OF ok])
  have empty: "live_idx (abort_at (current (run_holder ops)) (controllers (run_holder ops))) = {}"
    using sub by (auto simp: live_idx_abort_at)
  have c2: "live_controllers (createController (run_holder ops)) = 1"
    using empty by (simp add: live_controllers_card createController_def Let_def live_idx_append)
  have c3: "current (createController (run_holder ops)) = Some (length (controllers (run_holder ops)))"
    by (simp add: createController_def Let_def length_abort_at)
  have all: "\<forall>a \<in> set (abort_at (current (run_holder ops)) (controllers (run_holder ops))). a"
    using empty by (auto simp: live_idx_def in_set_conv_nth)
  have c4: "take (length (controllers (run_holder ops))) (controllers (createController (run_holder ops)))
        = replicate (length (controllers (run_holder ops))) True"
    using all_True_replicate [OF all] by (simp add: createController_def Let_def length_abort_at)
  have c5: "live_controllers (unmount (run_holder ops)) = 0"
    using empty by (simp add: live_controllers_card unmount_def)
  show ?thesis using c1 c2 c3 c4 c5 by simp
qed

section \<open>One request in flight for each key\<close>

text \<open>
  Every event keeps the coordinator well formed. The requests of one key that
  are in flight all use the current controller of its scope, and no two
  requests share a controller.
\<close>

lemma length_filter_key:
  "distinct (map g xs) \<Longrightarrow> length (filter (\<lambda>x. g x = k) xs) \<le> 1"
proof (induction xs)
  case Nil
  then show ?case by simp
next
  case (Cons x xs)
  show ?case
  proof (cases "g x = k")
    case True
    then have "k \<notin> g ` set xs" using Cons.prems by auto
    then have "filter (\<lambda>x. g x = k) xs = []" by (auto simp: filter_empty_conv)
    then show ?thesis using True by simp
  next
    case False
    then show ?thesis using Cons by simp
  qed
qed

lemma length_filter_mono:
  "(\<And>x. x \<in> set xs \<Longrightarrow> P x \<Longrightarrow> Q x) \<Longrightarrow> length (filter P xs) \<le> length (filter Q xs)"
  by (induction xs) auto

lemma length_controllers_createController:
  "length (controllers (createController h)) = Suc (length (controllers h))"
  by (simp add: createController_def Let_def length_abort_at)

lemma length_controllers_unmount:
  "length (controllers (unmount h)) = length (controllers h)"
  by (simp add: unmount_def length_abort_at)

lemma live_idx_createController:
  assumes "holder_ok h"
  shows "live_idx (controllers (createController h)) = {length (controllers h)}"
proof -
  have "live_idx (controllers h) \<subseteq> set_option (current h)"
    using assms by (simp add: holder_ok_def)
  then have "live_idx (abort_at (current h) (controllers h)) = {}"
    by (auto simp: live_idx_abort_at)
  then show ?thesis
    by (simp add: createController_def Let_def live_idx_append length_abort_at)
qed

lemma coord_ok_idle: "coord_ok idle_coordinator"
  by (simp add: coord_ok_def idle_coordinator_def holder_ok_new)

lemma coord_ok_start_fetch:
  assumes "coord_ok s"
  shows "coord_ok (start_fetch key s)"
proof -
  let ?h = "createController (scopes s key)"
  let ?new = "\<lparr> req_key = key, req_controller = length (controllers ?h) - 1, req_settled = False \<rparr>"
  have a: "\<forall>k. holder_ok (((scopes s)(key := ?h)) k)"
    using assms by (simp add: coord_ok_def holder_ok_createController)
  have old: "\<forall>r \<in> set (requests s).
      req_controller r < length (controllers (((scopes s)(key := ?h)) (req_key r)))"
    using assms by (auto simp: coord_ok_def length_controllers_createController less_Suc_eq)
  have new: "req_controller ?new < length (controllers (((scopes s)(key := ?h)) (req_key ?new)))"
    by (simp add: length_controllers_createController)
  have fresh: "req_id ?new \<notin> set (map req_id (requests s))"
  proof
    assume "req_id ?new \<in> set (map req_id (requests s))"
    then obtain r where r: "r \<in> set (requests s)" "req_id r = req_id ?new" by auto
    then have "req_controller r < length (controllers (scopes s (req_key r)))"
      using assms by (simp add: coord_ok_def)
    then show False
      using r(2) by (simp add: req_id_def length_controllers_createController)
  qed
  have c: "distinct (map req_id (requests s @ [?new]))"
    using fresh assms by (simp add: coord_ok_def)
  show ?thesis
    unfolding coord_ok_def start_fetch_def Let_def
    using a old new c by simp
qed

lemma coord_ok_Complete:
  assumes "coord_ok s"
  shows "coord_ok (coord_step s (Complete k))"
proof (cases "k < length (requests s)")
  case False
  then show ?thesis using assms by simp
next
  case True
  let ?rs = "(requests s)[k := settle_request (requests s ! k)]"
  have ids: "map req_id ?rs = map req_id (requests s)"
    using True by (intro nth_equalityI) (auto simp: nth_list_update req_id_def settle_request_def)
  have b: "\<forall>r \<in> set ?rs. req_controller r < length (controllers (scopes s (req_key r)))"
  proof
    fix r assume "r \<in> set ?rs"
    then have "r = settle_request (requests s ! k) \<or> r \<in> set (requests s)"
      using set_update_subset_insert by fastforce
    then show "req_controller r < length (controllers (scopes s (req_key r)))"
      using assms True by (auto simp: coord_ok_def settle_request_def)
  qed
  show ?thesis using ids b assms True by (simp add: coord_ok_def)
qed

lemma coord_ok_Detach:
  assumes "coord_ok s"
  shows "coord_ok (coord_step s (Detach key))"
proof -
  have a: "\<forall>k. holder_ok (((scopes s)(key := unmount (scopes s key))) k)"
    using assms by (simp add: coord_ok_def holder_ok_unmount)
  have b: "\<forall>r \<in> set (requests s).
      req_controller r < length (controllers (((scopes s)(key := unmount (scopes s key))) (req_key r)))"
    using assms by (auto simp: coord_ok_def length_controllers_unmount)
  show ?thesis using a b assms by (simp add: coord_ok_def)
qed

lemma coord_ok_step: "coord_ok s \<Longrightarrow> coord_ok (coord_step s e)"
proof (cases e)
  case (EnsureFresh key)
  assume "coord_ok s"
  then show ?thesis using EnsureFresh by (simp add: coord_ok_start_fetch)
next
  case (Supersede key)
  assume "coord_ok s"
  then show ?thesis using Supersede by (simp add: coord_ok_start_fetch)
next
  case (Complete k)
  assume "coord_ok s"
  then show ?thesis unfolding Complete by (rule coord_ok_Complete)
next
  case (Detach key)
  assume "coord_ok s"
  then show ?thesis unfolding Detach by (rule coord_ok_Detach)
qed

lemma coord_ok_foldl: "coord_ok s \<Longrightarrow> coord_ok (foldl coord_step s evs)"
  by (induction evs arbitrary: s) (simp_all add: coord_ok_step)

lemma coord_ok_run: "coord_ok (run_coordinator evs)"
  unfolding run_coordinator_def by (rule coord_ok_foldl) (rule coord_ok_idle)

lemma in_flight_for_key_le:
  assumes "coord_ok s"
  shows "length (in_flight_for_key s key) \<le> 1"
proof -
  have ok: "holder_ok (scopes s key)" using assms by (simp add: coord_ok_def)
  show ?thesis
  proof (cases "current (scopes s key)")
    case None
    then have "live_idx (controllers (scopes s key)) = {}"
      using ok by (simp add: holder_ok_def)
    then have "in_flight_for_key s key = []"
      by (auto simp: in_flight_for_key_def live_request_def filter_empty_conv live_idx_def)
    then show ?thesis by simp
  next
    case (Some c)
    then have sub: "live_idx (controllers (scopes s key)) \<subseteq> {c}"
      using ok by (simp add: holder_ok_def)
    have "length (in_flight_for_key s key) \<le> length (filter (\<lambda>r. req_id r = (key, c)) (requests s))"
      unfolding in_flight_for_key_def
    proof (rule length_filter_mono)
      fix r assume "r \<in> set (requests s)" and live: "req_key r = key \<and> live_request s r"
      then have "req_controller r \<in> live_idx (controllers (scopes s key))"
        by (auto simp: live_request_def live_idx_def)
      then have "req_controller r = c" using sub by auto
      then show "req_id r = (key, c)" using live by (simp add: req_id_def)
    qed
    also have "\<dots> \<le> 1"
      using assms by (intro length_filter_key) (simp add: coord_ok_def)
    finally show ?thesis .
  qed
qed

lemma in_flight_after_start:
  assumes "coord_ok s"
  shows "in_flight_for_key (start_fetch key s) key =
           [\<lparr> req_key = key, req_controller = length (controllers (scopes s key)),
              req_settled = False \<rparr>]"
proof -
  let ?h = "createController (scopes s key)"
  let ?s = "start_fetch key s"
  have ok: "holder_ok (scopes s key)" using assms by (simp add: coord_ok_def)
  have live: "live_idx (controllers ?h) = {length (controllers (scopes s key))}"
    by (rule live_idx_createController [OF ok])
  have sc: "scopes ?s key = ?h"
    by (simp add: start_fetch_def Let_def)
  have rq: "requests ?s = requests s @
      [\<lparr> req_key = key, req_controller = length (controllers (scopes s key)), req_settled = False \<rparr>]"
    by (simp add: start_fetch_def Let_def length_controllers_createController)
  have old: "filter (\<lambda>r. req_key r = key \<and> live_request ?s r) (requests s) = []"
  proof -
    have "\<not> (req_key r = key \<and> live_request ?s r)" if "r \<in> set (requests s)" for r
    proof
      assume a: "req_key r = key \<and> live_request ?s r"
      then have "req_controller r \<in> live_idx (controllers ?h)"
        using sc by (auto simp: live_request_def live_idx_def)
      then have "req_controller r = length (controllers (scopes s key))"
        using live by simp
      moreover have "req_controller r < length (controllers (scopes s key))"
        using assms that a by (auto simp: coord_ok_def)
      ultimately show False by simp
    qed
    then show ?thesis by (simp add: filter_empty_conv)
  qed
  have "length (controllers (scopes s key)) \<in> live_idx (controllers ?h)"
    using live by simp
  then have new: "live_request ?s
      \<lparr> req_key = key, req_controller = length (controllers (scopes s key)), req_settled = False \<rparr>"
    using sc by (simp add: live_request_def live_idx_def)
  show ?thesis
    unfolding in_flight_for_key_def rq using old new by simp
qed

text \<open>
  Claim C5. After any sequence of calls of \<open>ensureFresh\<close>, superseding
  requests, completions and aborted scopes, every key has at most one request
  in flight that is not cancelled. A call of \<open>ensureFresh\<close> leaves exactly one:
  when a request for the key is in flight the call joins it and changes
  nothing, otherwise it starts one. A superseding request aborts the previous
  one and is then the only request in flight for the key.
\<close>

theorem one_in_flight_per_key:
  "length (in_flight_for_key (run_coordinator evs) key) \<le> 1
   \<and> length (in_flight_for_key (coord_step (run_coordinator evs) (EnsureFresh key)) key) = 1
   \<and> (in_flight_for_key (run_coordinator evs) key \<noteq> [] \<longrightarrow>
        coord_step (run_coordinator evs) (EnsureFresh key) = run_coordinator evs)
   \<and> in_flight_for_key (coord_step (run_coordinator evs) (Supersede key)) key
        = [\<lparr> req_key = key,
             req_controller = length (controllers (scopes (run_coordinator evs) key)),
             req_settled = False \<rparr>]"
proof -
  let ?s = "run_coordinator evs"
  have ok: "coord_ok ?s" by (rule coord_ok_run)
  have le: "length (in_flight_for_key ?s key) \<le> 1"
    by (rule in_flight_for_key_le [OF ok])
  have started: "in_flight_for_key (start_fetch key ?s) key
        = [\<lparr> req_key = key, req_controller = length (controllers (scopes ?s key)),
             req_settled = False \<rparr>]"
    by (rule in_flight_after_start [OF ok])
  have ensured: "length (in_flight_for_key (coord_step ?s (EnsureFresh key)) key) = 1"
  proof (cases "in_flight_for_key ?s key = []")
    case True
    then show ?thesis using started by simp
  next
    case False
    then have "length (in_flight_for_key ?s key) \<noteq> 0" by simp
    then have "length (in_flight_for_key ?s key) = 1" using le by linarith
    then show ?thesis using False by simp
  qed
  show ?thesis using le ensured started by simp
qed

theorem one_in_flight_per_key_witness:
  "in_flight_for_key (run_coordinator [EnsureFresh ''agents'']) ''agents'' \<noteq> []
   \<and> coord_step (run_coordinator [EnsureFresh ''agents'']) (EnsureFresh ''agents'')
        = run_coordinator [EnsureFresh ''agents'']
   \<and> length (in_flight_for_key (run_coordinator [EnsureFresh ''agents'', Supersede ''agents''])
        ''agents'') \<le> 1"
proof -
  have live: "in_flight_for_key (run_coordinator [EnsureFresh ''agents'']) ''agents'' \<noteq> []"
    by (simp add: run_coordinator_def idle_coordinator_def in_flight_for_key_def live_request_def
        start_fetch_def createController_def new_holder_def abort_at_def Let_def)
  show ?thesis
    using live one_in_flight_per_key [of "[EnsureFresh ''agents'']" "''agents''"]
      one_in_flight_per_key [of "[EnsureFresh ''agents'', Supersede ''agents'']" "''agents''"]
    by (simp del: coord_step.simps)
qed

end
